theory Spec2Isabelle
  imports Main "HOL-Library.Word"
begin

unbundle bit_operations_syntax

section \<open>Data model of tag.go\<close>

text \<open>
  Go strings and byte slices are sequences of bytes: a \<open>string\<close> is a list of
  8-bit characters, a \<open>[]byte\<close> a list of 8-bit words. A nil slice and an empty
  slice are both the empty list (\<open>bytes.Equal\<close> and \<open>len\<close> do not tell them apart).
\<close>

type_synonym byte = "8 word"

text \<open>\<open>type Tag struct\<close>: three \<open>uint16\<close> fields and the EPC bytes.\<close>

record Tag =
  PCBits :: "16 word"
  Length :: "16 word"
  EPCLengthBits :: "16 word"
  EPC :: "byte list"

text \<open>
  \<open>type TagInString struct\<close>: the same four field names, all strings. The field
  names carry the suffix \<open>_str\<close> here, since a record's field names are constants.
\<close>

record TagInString =
  PCBits_str :: string
  Length_str :: string
  EPCLengthBits_str :: string
  EPC_str :: string

text \<open>
  \<open>type TagReportData struct\<close>. \<open>TagCount\<close> is a Go \<open>uint\<close> that starts at 1 and
  is incremented once for each further tag of the batch; it is a \<open>nat\<close> here. The
  lemma \<open>stack_loop_TagCount_le\<close> below bounds it by the number of input tags, which
  a Go slice keeps below \<open>2 ^ 63\<close>, so the counter never wraps.
\<close>

record TagReportData =
  Parameter :: "byte list"
  TagCount :: nat

text \<open>
  \<open>type TagReportDataStack struct\<close>. The Go slice holds pointers; every pointer in
  it comes from its own \<open>&TagReportData{...}\<close> and is appended once, so no two
  entries share a pointee and the slice is a list of values.
\<close>

record TagReportDataStack =
  Stack :: "TagReportData list"

section \<open>Tag entity\<close>

text \<open>
  \<open>func (t Tag) IsEqual(tt Tag) bool\<close>. The third conjunct of the source compares
  \<open>tt.EPCLengthBits\<close> with \<open>tt.EPCLengthBits\<close>, and so does the model.
\<close>

definition IsEqual :: "Tag \<Rightarrow> Tag \<Rightarrow> bool" where
  "IsEqual t tt =
     (if PCBits t = PCBits tt \<and> Length t = Length tt
         \<and> EPCLengthBits tt = EPCLengthBits tt \<and> EPC t = EPC tt
      then True else False)"

text \<open>\<open>func (t Tag) IsDuplicate(tt Tag) bool\<close>\<close>

definition IsDuplicate :: "Tag \<Rightarrow> Tag \<Rightarrow> bool" where
  "IsDuplicate t tt = (if EPC t = EPC tt then True else False)"

section \<open>Tag index query\<close>

text \<open>
  \<open>func getIndexOfTag(tags []*Tag, t *Tag) int\<close>. The pointers are the non-nil
  pointers \<open>loadTagsFromCSV\<close> produces, so the slice is a list of tags. The loop
  carries \<open>index\<close>, a Go \<open>int\<close> that never exceeds the length of the slice.
  The function only reads: \<open>IsDuplicate\<close> has value receivers and nothing is
  assigned through \<open>tags\<close> or \<open>t\<close>.
\<close>

fun getIndexOfTag_loop :: "Tag list \<Rightarrow> Tag \<Rightarrow> int \<Rightarrow> int" where
  "getIndexOfTag_loop [] t index = - 1"
| "getIndexOfTag_loop (tag # tags) t index =
     (if IsDuplicate tag t then index else getIndexOfTag_loop tags t (index + 1))"

definition getIndexOfTag :: "Tag list \<Rightarrow> Tag \<Rightarrow> int" where
  "getIndexOfTag tags t = getIndexOfTag_loop tags t 0"

section \<open>Report batcher\<close>

text \<open>
  The encoders \<open>llrp.EPCData\<close>, \<open>llrp.C1G2PC\<close> and \<open>llrp.TagReportData\<close> belong to
  the package github.com/iomz/go-llrp, outside this repository. They are parameters
  of the model: any three total functions on bytes.
\<close>

record llrp =
  llrp_EPCData :: "16 word \<Rightarrow> 16 word \<Rightarrow> byte list \<Rightarrow> byte list"
  llrp_C1G2PC :: "16 word \<Rightarrow> byte list"
  llrp_TagReportData :: "byte list \<Rightarrow> byte list \<Rightarrow> byte list"

text \<open>
  \<open>func buildTagReportDataParameter(tag *Tag) []byte\<close>. As in \<open>getIndexOfTag\<close>,
  the tags are the non-nil pointers \<open>loadTagsFromCSV\<close> produces.
\<close>

definition buildTagReportDataParameter :: "llrp \<Rightarrow> Tag \<Rightarrow> byte list" where
  "buildTagReportDataParameter L tag =
     (let epcd = llrp_EPCData L (Length tag) (EPCLengthBits tag) (EPC tag);
          aptd = llrp_C1G2PC L (PCBits tag)
      in llrp_TagReportData L epcd aptd)"

text \<open>An index expression \<open>p.Stack[si]\<close> out of range is a run-time panic.\<close>

datatype panic = IndexOutOfRange

text \<open>
  One iteration of the loop of \<open>buildTagReportDataStack\<close>, on the state the loop
  carries: the stack \<open>p.Stack\<close> and the index \<open>si\<close>. The global \<open>*pdu\<close> is defined
  outside tag.go (a command-line flag of type \<open>int\<close>) and is the parameter \<open>pdu\<close>.

  The source's condition is
  \<open>len(p.Stack) != 0 && len(p.Stack[si].Parameter)+len(param)+100 > *pdu\<close>; the
  right operand is evaluated only on a non-empty stack, where \<open>p.Stack[si]\<close> panics
  if \<open>si\<close> is out of range. The lengths are Go \<open>int\<close>s; both slices are in memory
  at once, so their sum plus 100 is far below \<open>2 ^ 63\<close> and is taken in \<open>int\<close>.
\<close>

definition newTagReportData :: "byte list \<Rightarrow> TagReportData" where
  "newTagReportData param = \<lparr>Parameter = param, TagCount = 1\<rparr>"

definition stack_iter ::
  "llrp \<Rightarrow> int \<Rightarrow> TagReportData list \<times> nat \<Rightarrow> Tag \<Rightarrow> panic + TagReportData list \<times> nat" where
  "stack_iter L pdu st tag =
     (let stack = fst st; si = snd st;
          param = buildTagReportDataParameter L tag
      in if length stack \<noteq> 0 then
           (if si < length stack then
              (if int (length (Parameter (stack ! si))) + int (length param) + 100 > pdu
               then Inr (stack @ [newTagReportData param], si + 1)
               else Inr (stack[si := (stack ! si)
                           \<lparr>Parameter := Parameter (stack ! si) @ param,
                            TagCount := TagCount (stack ! si) + 1\<rparr>], si))
            else Inl IndexOutOfRange)
         else Inr ([newTagReportData param], si))"

fun stack_loop ::
  "llrp \<Rightarrow> int \<Rightarrow> TagReportData list \<times> nat \<Rightarrow> Tag list \<Rightarrow> panic + TagReportData list \<times> nat" where
  "stack_loop L pdu st [] = Inr st"
| "stack_loop L pdu st (tag # tags) =
     (case stack_iter L pdu st tag of
        Inl e \<Rightarrow> Inl e
      | Inr st' \<Rightarrow> stack_loop L pdu st' tags)"

text \<open>
  \<open>func buildTagReportDataStack(tags []*Tag) *TagReportDataStack\<close>: the loop from
  the zero-valued stack and \<open>si := 0\<close>.
\<close>

definition buildTagReportDataStack ::
  "llrp \<Rightarrow> int \<Rightarrow> Tag list \<Rightarrow> panic + TagReportDataStack" where
  "buildTagReportDataStack L pdu tags =
     (case stack_loop L pdu ([], 0) tags of
        Inl e \<Rightarrow> Inl e
      | Inr st \<Rightarrow> Inr \<lparr>Stack = fst st\<rparr>)"

text \<open>\<open>func (trds TagReportDataStack) TotalTagCounts() uint\<close>\<close>

fun TotalTagCounts_loop :: "TagReportData list \<Rightarrow> nat \<Rightarrow> nat" where
  "TotalTagCounts_loop [] ttc = ttc"
| "TotalTagCounts_loop (trd # trds) ttc = TotalTagCounts_loop trds (ttc + TagCount trd)"

definition TotalTagCounts :: "TagReportDataStack \<Rightarrow> nat" where
  "TotalTagCounts trds = TotalTagCounts_loop (Stack trds) 0"


section \<open>Functions of the Go standard library that tag.go calls\<close>

text \<open>
  \<open>strconv.ParseUint\<close>, \<open>strconv.FormatUint\<close>, \<open>hex.DecodeString\<close> and
  \<open>hex.EncodeToString\<close> belong to the Go distribution, not to this repository. They
  are modelled after the library's own code, on the arguments tag.go passes.

  The error values that reach tag.go: \<open>io.EOF\<close>; the syntax and range errors of
  \<open>strconv\<close> (with its errors for an invalid base or bit size); \<open>hex.ErrLength\<close> and
  \<open>hex.InvalidByteError\<close>; \<open>csv.ErrFieldCount\<close>.
\<close>

datatype error =
    EOF | ErrSyntax | ErrRange | ErrBase | ErrBitSize
  | ErrLength | InvalidByteError byte | ErrFieldCount

text \<open>\<open>func lower(c byte) byte { return c | ('x' - 'X') }\<close>\<close>

definition lower :: "byte \<Rightarrow> byte" where
  "lower c = c OR 32"

text \<open>
  The digit of one character in the loop of \<open>ParseUint\<close>: \<open>c - '0'\<close> for a decimal
  digit, \<open>lower(c) - 'a' + 10\<close> for a letter, a syntax error (\<open>None\<close>) otherwise.
\<close>

definition ParseUint_digit :: "byte \<Rightarrow> byte option" where
  "ParseUint_digit c =
     (if 48 \<le> c \<and> c \<le> 57 then Some (c - 48)
      else if 97 \<le> lower c \<and> lower c \<le> 122 then Some (lower c - 97 + 10)
      else None)"

definition maxUint64 :: nat where
  "maxUint64 = 2 ^ 64 - 1"

text \<open>
  The loop of \<open>ParseUint\<close> over the bytes of the string. The accumulator \<open>n\<close> is a
  \<open>uint64\<close>: a \<open>nat\<close> with the wrap-around of \<open>n *= base\<close> and \<open>n + d\<close> written
  out. A digit not below the base is a syntax error; \<open>n \<ge> cutoff\<close>, a wrapped sum
  (\<open>n1 < n\<close>) and \<open>n1 > maxVal\<close> are range errors.
\<close>

fun ParseUint_loop :: "nat \<Rightarrow> nat \<Rightarrow> nat \<Rightarrow> string \<Rightarrow> error + nat" where
  "ParseUint_loop base maxVal n [] = Inr n"
| "ParseUint_loop base maxVal n (ch # s) =
     (case ParseUint_digit (of_char ch) of
        None \<Rightarrow> Inl ErrSyntax
      | Some d \<Rightarrow>
          if d \<ge> of_nat base then Inl ErrSyntax
          else if n \<ge> maxUint64 div base + 1 then Inl ErrRange
          else
            (let n' = (n * base) mod 2 ^ 64;
                 n1 = (n' + unat d) mod 2 ^ 64
             in if n1 < n' \<or> n1 > maxVal then Inl ErrRange
                else ParseUint_loop base maxVal n1 s))"

text \<open>
  \<open>func ParseUint(s string, base int, bitSize int) (uint64, error)\<close>, for a base
  from 2 to 36 and a bit size from 1 to 64. tag.go passes the bases 16 and 10 and the
  bit size 16. Base 0 (the base read from a prefix of the string) and bit size 0 are
  never passed and are not modelled: the definition answers them with the errors of
  an invalid base and an invalid bit size.
\<close>

definition ParseUint :: "string \<Rightarrow> nat \<Rightarrow> nat \<Rightarrow> error + nat" where
  "ParseUint s base bitSize =
     (if s = [] then Inl ErrSyntax
      else if \<not> (2 \<le> base \<and> base \<le> 36) then Inl ErrBase
      else if \<not> (1 \<le> bitSize \<and> bitSize \<le> 64) then Inl ErrBitSize
      else ParseUint_loop base (2 ^ bitSize - 1) 0 s)"

text \<open>
  \<open>func FormatUint(i uint64, base int) string\<close>: the loop of \<open>formatBits\<close> for a
  general base, which writes \<open>digits[u % b]\<close> in front of the digits written so far
  while \<open>u >= b\<close>, and \<open>digits[u]\<close> last. (The library has faster paths for base 10
  and for powers of two; they write the same digits.) tag.go passes the bases 16 and
  10; the library panics on a base below 2 or above 36.
\<close>

definition digits :: string where
  "digits = ''0123456789abcdefghijklmnopqrstuvwxyz''"

function formatBits :: "nat \<Rightarrow> nat \<Rightarrow> string \<Rightarrow> string" where
  "formatBits u b a =
     (if 2 \<le> b \<and> b \<le> u then formatBits (u div b) b (digits ! (u mod b) # a)
      else digits ! u # a)"
  by pat_completeness auto
termination
  by (relation "measure (\<lambda>(u, b, a). u)") auto

declare formatBits.simps [simp del]

definition FormatUint :: "nat \<Rightarrow> nat \<Rightarrow> string" where
  "FormatUint i base = formatBits i base []"

text \<open>
  \<open>hex.DecodeString\<close>: two characters give one byte \<open>(a << 4) | b\<close>. The first
  character that is no hexadecimal digit is an \<open>InvalidByteError\<close>; an odd length
  without such a character is \<open>ErrLength\<close>.
\<close>

definition fromHexChar :: "byte \<Rightarrow> byte option" where
  "fromHexChar c =
     (if 48 \<le> c \<and> c \<le> 57 then Some (c - 48)
      else if 97 \<le> c \<and> c \<le> 102 then Some (c - 97 + 10)
      else if 65 \<le> c \<and> c \<le> 70 then Some (c - 65 + 10)
      else None)"

fun hex_Decode :: "byte list \<Rightarrow> error + byte list" where
  "hex_Decode [] = Inr []"
| "hex_Decode [p] =
     (case fromHexChar p of
        None \<Rightarrow> Inl (InvalidByteError p)
      | Some a \<Rightarrow> Inl ErrLength)"
| "hex_Decode (p # q # src) =
     (case fromHexChar p of
        None \<Rightarrow> Inl (InvalidByteError p)
      | Some a \<Rightarrow>
          (case fromHexChar q of
             None \<Rightarrow> Inl (InvalidByteError q)
           | Some b \<Rightarrow>
               (case hex_Decode src of
                  Inl e \<Rightarrow> Inl e
                | Inr dst \<Rightarrow> Inr ((push_bit 4 a OR b) # dst))))"

definition hex_DecodeString :: "string \<Rightarrow> error + byte list" where
  "hex_DecodeString s = hex_Decode (map of_char s)"

text \<open>\<open>hex.EncodeToString\<close>: \<open>hextable[v >> 4]\<close> and \<open>hextable[v & 0x0f]\<close> for each byte.\<close>

definition hextable :: string where
  "hextable = ''0123456789abcdef''"

fun hex_EncodeToString :: "byte list \<Rightarrow> string" where
  "hex_EncodeToString [] = []"
| "hex_EncodeToString (v # src) =
     hextable ! unat (drop_bit 4 v) # hextable ! unat (v AND 15) # hex_EncodeToString src"

section \<open>Record codec\<close>

text \<open>\<open>func (t Tag) InString() *TagInString\<close>\<close>

definition InString :: "Tag \<Rightarrow> TagInString" where
  "InString t =
     \<lparr>PCBits_str = FormatUint (unat (PCBits t)) 16,
      Length_str = FormatUint (unat (Length t)) 10,
      EPCLengthBits_str = FormatUint (unat (EPCLengthBits t)) 10,
      EPC_str = hex_EncodeToString (EPC t)\<rparr>"

text \<open>
  \<open>func buildTag(record []string) (Tag, error)\<close>. A record of another length than
  four is answered with \<open>io.EOF\<close>; the first field that does not parse gives its
  error; \<open>uint16(pc64)\<close> is \<open>of_nat\<close> into a 16-bit word.
\<close>

definition buildTag :: "string list \<Rightarrow> error + Tag" where
  "buildTag record =
     (if length record \<noteq> 4 then Inl EOF
      else case ParseUint (record ! 0) 16 16 of
        Inl err \<Rightarrow> Inl err
      | Inr pc64 \<Rightarrow>
     (case ParseUint (record ! 1) 10 16 of
        Inl err \<Rightarrow> Inl err
      | Inr len64 \<Rightarrow>
     (case ParseUint (record ! 2) 10 16 of
        Inl err \<Rightarrow> Inl err
      | Inr epclen64 \<Rightarrow>
     (case hex_DecodeString (record ! 3) of
        Inl err \<Rightarrow> Inl err
      | Inr epc \<Rightarrow>
          Inr \<lparr>PCBits = of_nat pc64, Length = of_nat len64,
               EPCLengthBits = of_nat epclen64, EPC = epc\<rparr>))))"

section \<open>Reading tags from CSV\<close>

text \<open>
  \<open>encoding/csv\<close> belongs to the Go distribution. \<open>loadTagsFromCSV\<close> uses the reader
  \<open>csv.NewReader\<close> returns, with its settings untouched: the comma as separator,
  no comment character, and \<open>FieldsPerRecord = 0\<close>, for which the package documents:
  ``Read sets it to the number of fields in the first record, so that future records
  must have the same field count.'' A record with another count is returned together
  with the error \<open>ErrFieldCount\<close>.

  The reader is modelled on inputs without a double quote and without a carriage
  return (\<open>csv_plain\<close>), where a record is one non-empty line and its fields are the
  pieces between the commas. Quoted fields and the treatment of carriage returns are
  not modelled.
\<close>

definition csv_plain :: "string \<Rightarrow> bool" where
  "csv_plain input = (CHR 0x22 \<notin> set input \<and> CHR 0x0D \<notin> set input)"

text \<open>The lines of the input, without the line feeds; \<open>line\<close> holds the line begun.\<close>

fun csv_lines_from :: "string \<Rightarrow> string \<Rightarrow> string list" where
  "csv_lines_from line [] = (if line = [] then [] else [line])"
| "csv_lines_from line (c # s) =
     (if c = CHR 0x0A then line # csv_lines_from [] s else csv_lines_from (line @ [c]) s)"

text \<open>The fields of a line: one more than it has commas.\<close>

fun csv_fields :: "string \<Rightarrow> string list" where
  "csv_fields [] = [[]]"
| "csv_fields (c # s) =
     (if c = CHR '','' then [] # csv_fields s
      else (case csv_fields s of [] \<Rightarrow> [[c]] | f # fs \<Rightarrow> (c # f) # fs))"

text \<open>
  What the successive calls of \<open>r.Read()\<close> return before the reader reports
  \<open>io.EOF\<close>: for every non-empty line (empty lines are skipped) the record and the
  error, \<open>None\<close> for \<open>nil\<close>. The first argument is the reader's \<open>FieldsPerRecord\<close>.
\<close>

fun csv_Read_all :: "int \<Rightarrow> string list \<Rightarrow> (string list \<times> error option) list" where
  "csv_Read_all FieldsPerRecord [] = []"
| "csv_Read_all FieldsPerRecord (line # lines) =
     (if line = [] then csv_Read_all FieldsPerRecord lines
      else
        (let record = csv_fields line
         in if FieldsPerRecord > 0 then
              (record,
               if int (length record) \<noteq> FieldsPerRecord then Some ErrFieldCount else None)
                # csv_Read_all FieldsPerRecord lines
            else if FieldsPerRecord = 0 then
              (record, None) # csv_Read_all (int (length record)) lines
            else (record, None) # csv_Read_all FieldsPerRecord lines))"

text \<open>
  \<open>check\<close> is called by \<open>loadTagsFromCSV\<close> and defined in another file of the
  repository. It takes the error and returns nothing, so for the loop it either
  returns or ends the program. The model takes it as the parameter \<open>check\<close>, true
  on the errors (\<open>None\<close> for \<open>nil\<close>) on which it returns.
\<close>

datatype fatal = CheckAborted "error option" | NotModelled

text \<open>
  The loop of \<open>loadTagsFromCSV\<close> over the results of \<open>r.Read()\<close>: it ends when the
  reader reports \<open>io.EOF\<close> (the end of the list), calls \<open>check(err)\<close>, and appends the
  tag unless \<open>buildTag\<close> returns an error, in which case it goes on with the next
  record.
\<close>

fun loadTags_loop ::
  "(error option \<Rightarrow> bool) \<Rightarrow> (string list \<times> error option) list \<Rightarrow> Tag list
     \<Rightarrow> fatal + Tag list" where
  "loadTags_loop check [] tags = Inr tags"
| "loadTags_loop check ((record, err) # reads) tags =
     (if err = Some EOF then Inr tags
      else if \<not> check err then Inl (CheckAborted err)
      else (case buildTag record of
              Inl e \<Rightarrow> loadTags_loop check reads tags
            | Inr tag \<Rightarrow> loadTags_loop check reads (tags @ [tag])))"

text \<open>\<open>func loadTagsFromCSV(input string) []*Tag\<close>\<close>

definition loadTagsFromCSV :: "(error option \<Rightarrow> bool) \<Rightarrow> string \<Rightarrow> fatal + Tag list" where
  "loadTagsFromCSV check input =
     (if csv_plain input
      then loadTags_loop check (csv_Read_all 0 (csv_lines_from [] input)) []
      else Inl NotModelled)"

text \<open>
  The helper as Go programs customarily write it,
  \<open>func check(e error) { if e != nil { panic(e) } }\<close>: it returns on \<open>nil\<close> only.
\<close>

definition check_panics :: "error option \<Rightarrow> bool" where
  "check_panics err = (err = None)"

section \<open>Auxiliary definitions for the proofs\<close>

text \<open>
  The loop keeps \<open>si\<close> at the last position of a non-empty stack, and at 0 while
  the stack is empty.
\<close>

definition stack_wf :: "TagReportData list \<times> nat \<Rightarrow> bool" where
  "stack_wf st = (if fst st = [] then snd st = 0 else Suc (snd st) = length (fst st))"

text \<open>
  The loop invariant, relating the state to the tags consumed so far: the buffers
  concatenate to the encodings of the tags seen, the counts sum to their number, no
  batch is empty, and a batch is within the budget unless it holds one oversized
  parameter.
\<close>

definition stack_rel :: "llrp \<Rightarrow> int \<Rightarrow> Tag list \<Rightarrow> TagReportData list \<times> nat \<Rightarrow> bool" where
  "stack_rel L pdu seen st =
     (stack_wf st
      \<and> concat (map Parameter (fst st)) = concat (map (buildTagReportDataParameter L) seen)
      \<and> sum_list (map TagCount (fst st)) = length seen
      \<and> length (fst st) \<le> length seen
      \<and> (\<forall>b \<in> set (fst st). 1 \<le> TagCount b)
      \<and> (\<forall>b \<in> set (fst st).
            int (length (Parameter b)) + 100 \<le> pdu
            \<or> (TagCount b = 1 \<and> pdu < int (length (Parameter b)) + 100
                \<and> Parameter b \<in> buildTagReportDataParameter L ` set seen)))"

text \<open>
  A stand-in encoder and sample tags for evaluating the batcher on concrete input.
  A tag with an EPC of \<open>n\<close> bytes is encoded in \<open>n + 8\<close> bytes.
\<close>

definition sample_llrp :: llrp where
  "sample_llrp =
     \<lparr>llrp_EPCData = (\<lambda>len bits epc. 141 # epc),
      llrp_C1G2PC = (\<lambda>pc. [140, ucast (drop_bit 8 pc), ucast pc]),
      llrp_TagReportData = (\<lambda>epcd aptd. [0, 240, 0, 0] @ epcd @ aptd)\<rparr>"

definition sample_tag :: "byte list \<Rightarrow> Tag" where
  "sample_tag epc = \<lparr>PCBits = 12288, Length = 16, EPCLengthBits = 96, EPC = epc\<rparr>"

definition epc12 :: "byte \<Rightarrow> byte list" where
  "epc12 x = [226, 0, 0, 0, 0, 0, 0, 0, 0, 0, 0, x]"

definition epc40 :: "byte list" where
  "epc40 = replicate 40 0"

text \<open>
  Comparing text up to the case of hexadecimal digits: \<open>hexLower\<close> maps \<open>A\<close> to
  \<open>F\<close> to \<open>a\<close> to \<open>f\<close> and leaves every other character. \<open>trimZeros\<close> removes
  the zeros in front of a numeral, keeping its last character.
\<close>

definition hexLower :: "char \<Rightarrow> char" where
  "hexLower c =
     (if c = CHR ''A'' then CHR ''a'' else if c = CHR ''B'' then CHR ''b''
      else if c = CHR ''C'' then CHR ''c'' else if c = CHR ''D'' then CHR ''d''
      else if c = CHR ''E'' then CHR ''e'' else if c = CHR ''F'' then CHR ''f''
      else c)"

fun trimZeros :: "string \<Rightarrow> string" where
  "trimZeros (c # d # s) = (if c = CHR ''0'' then trimZeros (d # s) else c # d # s)"
| "trimZeros s = s"

text \<open>The characters that are digits below 16, with their values.\<close>

definition digit_table :: "(char \<times> byte) list" where
  "digit_table =
     [(CHR ''0'', 0), (CHR ''1'', 1), (CHR ''2'', 2), (CHR ''3'', 3), (CHR ''4'', 4),
      (CHR ''5'', 5), (CHR ''6'', 6), (CHR ''7'', 7), (CHR ''8'', 8), (CHR ''9'', 9),
      (CHR ''a'', 10), (CHR ''b'', 11), (CHR ''c'', 12), (CHR ''d'', 13), (CHR ''e'', 14),
      (CHR ''f'', 15),
      (CHR ''A'', 10), (CHR ''B'', 11), (CHR ''C'', 12), (CHR ''D'', 13), (CHR ''E'', 14),
      (CHR ''F'', 15)]"

text \<open>
  Two inputs of three records each: in the first the second record has two fields, in
  the second it has four fields of which the last is not hexadecimal.
\<close>

definition three_rows_short :: string where
  "three_rows_short =
     ''3000,16,96,e2001234'' @ [CHR 0x0A] @ ''1A,10'' @ [CHR 0x0A]
     @ ''3000,16,96,e2005678'' @ [CHR 0x0A]"

definition three_rows_unparseable :: string where
  "three_rows_unparseable =
     ''3000,16,96,e2001234'' @ [CHR 0x0A] @ ''1A,10,96,xyz'' @ [CHR 0x0A]
     @ ''3000,16,96,e2005678'' @ [CHR 0x0A]"

section \<open>Theorems: tag entity\<close>

lemma IsEqual_iff:
  "IsEqual t tt \<longleftrightarrow> PCBits t = PCBits tt \<and> Length t = Length tt \<and> EPC t = EPC tt"
  by (simp add: IsEqual_def)

lemma IsDuplicate_iff: "IsDuplicate t tt \<longleftrightarrow> EPC t = EPC tt"
  by (simp add: IsDuplicate_def)

text \<open>
  Claim C1 says that \<open>IsEqual\<close> holds exactly when all four fields agree. The code
  compares \<open>tt.EPCLengthBits\<close> with itself, so (by \<open>IsEqual_iff\<close>) the field
  \<open>EPCLengthBits\<close> never takes part: the two tags below differ in \<open>EPCLengthBits\<close>
  alone, and \<open>IsEqual\<close> returns true on them.
\<close>

theorem IsEqual_differing_EPCLengthBits:
  "IsEqual \<lparr>PCBits = 0, Length = 0, EPCLengthBits = 1, EPC = []\<rparr>
           \<lparr>PCBits = 0, Length = 0, EPCLengthBits = 2, EPC = []\<rparr>
   \<and> EPCLengthBits \<lparr>PCBits = 0, Length = 0, EPCLengthBits = 1, EPC = []\<rparr>
     \<noteq> EPCLengthBits \<lparr>PCBits = 0, Length = 0, EPCLengthBits = 2, EPC = []\<rparr>"
  by (simp add: IsEqual_def)

text \<open>
  Claim C8: \<open>IsDuplicate\<close> is reflexive and symmetric, holds exactly when the EPC
  bytes are equal, is unchanged when the three other fields of a tag are replaced,
  follows from \<open>IsEqual\<close>, and does not imply \<open>IsEqual\<close>.
\<close>

theorem IsDuplicate_properties:
  "IsDuplicate t t
   \<and> (IsDuplicate t u \<longleftrightarrow> IsDuplicate u t)
   \<and> (IsDuplicate t u \<longleftrightarrow> EPC t = EPC u)
   \<and> (IsDuplicate (t\<lparr>PCBits := a, Length := b, EPCLengthBits := c\<rparr>) u \<longleftrightarrow> IsDuplicate t u)
   \<and> (IsEqual t u \<longrightarrow> IsDuplicate t u)
   \<and> (\<exists>v w. IsDuplicate v w \<and> \<not> IsEqual v w)"
proof -
  have "IsDuplicate \<lparr>PCBits = 0, Length = 1, EPCLengthBits = 0, EPC = []\<rparr>
                    \<lparr>PCBits = 0, Length = 2, EPCLengthBits = 0, EPC = []\<rparr>
        \<and> \<not> IsEqual \<lparr>PCBits = 0, Length = 1, EPCLengthBits = 0, EPC = []\<rparr>
                    \<lparr>PCBits = 0, Length = 2, EPCLengthBits = 0, EPC = []\<rparr>"
    by (simp add: IsDuplicate_def IsEqual_def)
  then have "\<exists>v w. IsDuplicate v w \<and> \<not> IsEqual v w" by blast
  then show ?thesis by (auto simp: IsDuplicate_iff IsEqual_iff)
qed

theorem IsDuplicate_properties_witness:
  "IsEqual (sample_tag (epc12 1)) (sample_tag (epc12 1))
   \<and> IsDuplicate (sample_tag (epc12 1)) (sample_tag (epc12 1))
   \<and> IsDuplicate (sample_tag (epc12 1)) ((sample_tag (epc12 1))\<lparr>Length := 7\<rparr>)
   \<and> \<not> IsEqual (sample_tag (epc12 1)) ((sample_tag (epc12 1))\<lparr>Length := 7\<rparr>)"
  using IsDuplicate_properties [of "sample_tag (epc12 1)" "sample_tag (epc12 1)"]
  by (simp add: IsEqual_def IsDuplicate_def sample_tag_def)

section \<open>Theorems: tag index query\<close>

lemma getIndexOfTag_loop_none:
  "\<forall>tag \<in> set tags. \<not> IsDuplicate tag t \<Longrightarrow> getIndexOfTag_loop tags t index = - 1"
  by (induction tags arbitrary: index) simp_all

lemma getIndexOfTag_loop_first:
  "i < length tags \<Longrightarrow> IsDuplicate (tags ! i) t \<Longrightarrow> \<forall>j<i. \<not> IsDuplicate (tags ! j) t
   \<Longrightarrow> getIndexOfTag_loop tags t index = index + int i"
proof (induction tags arbitrary: index i)
  case Nil
  then show ?case by simp
next
  case (Cons tag tags)
  show ?case
  proof (cases i)
    case 0
    with Cons.prems show ?thesis by simp
  next
    case (Suc k)
    with Cons.prems have "\<not> IsDuplicate tag t" by auto
    moreover from Suc Cons.prems have "getIndexOfTag_loop tags t (index + 1) = index + 1 + int k"
      by (intro Cons.IH) auto
    ultimately show ?thesis using Suc by simp
  qed
qed

text \<open>
  Claim C9: when some element of the list is a duplicate of the target,
  \<open>getIndexOfTag\<close> returns the position of the first such element; when none is, it
  returns \<open>-1\<close>, and so it does on the empty list. The function returns an index
  only: the model has no step that writes to the list, as the source has none.
\<close>

theorem getIndexOfTag_first_match:
  "((\<exists>i<length tags. IsDuplicate (tags ! i) t) \<longrightarrow>
      (\<exists>i<length tags. getIndexOfTag tags t = int i \<and> IsDuplicate (tags ! i) t
          \<and> (\<forall>j<i. \<not> IsDuplicate (tags ! j) t)))
   \<and> ((\<forall>i<length tags. \<not> IsDuplicate (tags ! i) t) \<longrightarrow> getIndexOfTag tags t = - 1)
   \<and> getIndexOfTag [] t = - 1"
proof (intro conjI impI)
  assume "\<exists>i<length tags. IsDuplicate (tags ! i) t"
  then obtain i where i: "i < length tags \<and> IsDuplicate (tags ! i) t"
    and least: "\<forall>j<i. \<not> (j < length tags \<and> IsDuplicate (tags ! j) t)"
    using exists_least_iff [of "\<lambda>i. i < length tags \<and> IsDuplicate (tags ! i) t"] by blast
  then have no_earlier: "\<forall>j<i. \<not> IsDuplicate (tags ! j) t" by auto
  with i have "getIndexOfTag tags t = int i"
    using getIndexOfTag_loop_first [of i tags t 0] by (simp add: getIndexOfTag_def)
  with i no_earlier
  show "\<exists>i<length tags. getIndexOfTag tags t = int i \<and> IsDuplicate (tags ! i) t
          \<and> (\<forall>j<i. \<not> IsDuplicate (tags ! j) t)" by blast
next
  assume "\<forall>i<length tags. \<not> IsDuplicate (tags ! i) t"
  then have "\<forall>tag \<in> set tags. \<not> IsDuplicate tag t" by (auto simp: in_set_conv_nth)
  then show "getIndexOfTag tags t = - 1"
    by (simp add: getIndexOfTag_def getIndexOfTag_loop_none)
next
  show "getIndexOfTag [] t = - 1" by (simp add: getIndexOfTag_def)
qed

theorem getIndexOfTag_first_match_witness:
  "IsDuplicate ([sample_tag (epc12 1), sample_tag (epc12 2), sample_tag (epc12 2)] ! 1)
               ((sample_tag (epc12 2))\<lparr>Length := 7\<rparr>)
   \<and> getIndexOfTag [sample_tag (epc12 1), sample_tag (epc12 2), sample_tag (epc12 2)]
                    ((sample_tag (epc12 2))\<lparr>Length := 7\<rparr>) = 1
   \<and> \<not> IsDuplicate ([sample_tag (epc12 1)] ! 0) ((sample_tag (epc12 2))\<lparr>Length := 7\<rparr>)
   \<and> getIndexOfTag [sample_tag (epc12 1)] ((sample_tag (epc12 2))\<lparr>Length := 7\<rparr>) = - 1"
  using getIndexOfTag_first_match
      [of "[sample_tag (epc12 1), sample_tag (epc12 2), sample_tag (epc12 2)]"
          "(sample_tag (epc12 2))\<lparr>Length := 7\<rparr>"]
    getIndexOfTag_first_match
      [of "[sample_tag (epc12 1)]" "(sample_tag (epc12 2))\<lparr>Length := 7\<rparr>"]
  by (simp add: getIndexOfTag_def IsDuplicate_def sample_tag_def epc12_def)


section \<open>Theorems: report batcher\<close>

lemma TotalTagCounts_loop_sum:
  "TotalTagCounts_loop trds ttc = ttc + sum_list (map TagCount trds)"
  by (induction trds arbitrary: ttc) simp_all

lemma stack_iter_empty:
  "stack_iter L pdu ([], si) tag =
     Inr ([newTagReportData (buildTagReportDataParameter L tag)], si)"
  by (simp add: stack_iter_def)

lemma stack_iter_snoc:
  "stack_iter L pdu (bs @ [b], length bs) tag =
     (let param = buildTagReportDataParameter L tag in
      if int (length (Parameter b)) + int (length param) + 100 > pdu
      then Inr (bs @ [b, newTagReportData param], Suc (length bs))
      else Inr (bs @ [b\<lparr>Parameter := Parameter b @ param, TagCount := Suc (TagCount b)\<rparr>],
                length bs))"
  by (simp add: stack_iter_def Let_def)

lemma stack_wf_cases:
  assumes "stack_wf st"
  obtains "st = ([], 0)" | bs b where "st = (bs @ [b], length bs)"
proof (cases "fst st = []")
  case True
  with assms have "st = ([], 0)" by (simp add: stack_wf_def prod_eq_iff)
  then show ?thesis by (rule that(1))
next
  case False
  then obtain bs b where s: "fst st = bs @ [b]" by (meson rev_exhaust)
  with assms have "st = (bs @ [b], length bs)" by (simp add: stack_wf_def prod_eq_iff)
  then show ?thesis by (rule that(2))
qed

text \<open>A relation between the tags consumed and the state that every iteration keeps
  holds after the loop; in particular the loop never panics.\<close>

lemma stack_loop_rel:
  assumes "R seen st"
    and "\<And>seen st tag. R seen st \<Longrightarrow>
           \<exists>st'. stack_iter L pdu st tag = Inr st' \<and> R (seen @ [tag]) st'"
  shows "\<exists>st'. stack_loop L pdu st tags = Inr st' \<and> R (seen @ tags) st'"
  using assms(1)
proof (induction tags arbitrary: seen st)
  case Nil
  then show ?case by simp
next
  case (Cons tag tags)
  from assms(2) [OF Cons.prems] obtain st1
    where s1: "stack_iter L pdu st tag = Inr st1" and r1: "R (seen @ [tag]) st1" by blast
  from Cons.IH [OF r1] obtain st' where "stack_loop L pdu st1 tags = Inr st'"
    and "R ((seen @ [tag]) @ tags) st'" by blast
  with s1 show ?case by simp
qed

lemma stack_rel_init: "stack_rel L pdu [] ([], 0)"
  by (simp add: stack_rel_def stack_wf_def)

lemma stack_rel_step:
  assumes "stack_rel L pdu seen st"
  shows "\<exists>st'. stack_iter L pdu st tag = Inr st' \<and> stack_rel L pdu (seen @ [tag]) st'"
proof -
  from assms have "stack_wf st" by (simp add: stack_rel_def)
  then show ?thesis
  proof (cases rule: stack_wf_cases)
    case 1
    with assms show ?thesis
      by (auto simp: stack_rel_def stack_wf_def stack_iter_empty newTagReportData_def)
  next
    case (2 bs b)
    show ?thesis
    proof (cases "int (length (Parameter b))
                  + int (length (buildTagReportDataParameter L tag)) + 100 > pdu")
      case True
      with 2 assms show ?thesis
        by (auto simp: stack_rel_def stack_wf_def stack_iter_snoc newTagReportData_def)
    next
      case False
      with 2 assms show ?thesis
        by (auto simp: stack_rel_def stack_wf_def stack_iter_snoc)
    qed
  qed
qed

lemma stack_loop_rel_init:
  "\<exists>st'. stack_loop L pdu ([], 0) tags = Inr st' \<and> stack_rel L pdu tags st'"
  using stack_loop_rel [where R = "stack_rel L pdu" and seen = "[]" and tags = tags,
      OF stack_rel_init stack_rel_step]
  by simp

lemma buildTagReportDataStack_rel:
  "\<exists>trds. buildTagReportDataStack L pdu tags = Inr trds
      \<and> stack_rel L pdu tags (Stack trds, length (Stack trds) - 1)"
proof -
  obtain st' where 1: "stack_loop L pdu ([], 0) tags = Inr st'"
    and 2: "stack_rel L pdu tags st'"
    using stack_loop_rel_init by blast
  from 2 have "snd st' = length (fst st') - 1"
    by (auto simp: stack_rel_def stack_wf_def split: if_splits)
  then have "st' = (fst st', length (fst st') - 1)" by (simp add: prod_eq_iff)
  with 1 2 show ?thesis by (simp add: buildTagReportDataStack_def)
qed

text \<open>
  The two quantities the model keeps unbounded stay within the size of the input:
  a batch counts at most as many tags as the input has, and the buffers together
  hold exactly the encoded bytes of the input. Neither the \<open>uint\<close> counter nor the
  \<open>int\<close> sum of the size test can wrap on an input that fits in memory.
\<close>

lemma stack_loop_TagCount_le:
  assumes "buildTagReportDataStack L pdu tags = Inr trds" and "b \<in> set (Stack trds)"
  shows "TagCount b \<le> length tags"
proof -
  from assms(1) buildTagReportDataStack_rel [of L pdu tags]
  have "sum_list (map TagCount (Stack trds)) = length tags"
    by (auto simp: stack_rel_def)
  moreover from assms(2) have "TagCount b \<le> sum_list (map TagCount (Stack trds))"
    by (simp add: member_le_sum_list)
  ultimately show ?thesis by simp
qed

lemma sample_param_length:
  "length (buildTagReportDataParameter sample_llrp (sample_tag epc)) = length epc + 8"
  by (simp add: buildTagReportDataParameter_def sample_llrp_def sample_tag_def)

text \<open>
  Claim C2: the batcher returns a stack (it does not panic), and every batch of it
  either satisfies \<open>len(buffer) + 100 \<le> pdu\<close>, or has \<open>TagCount = 1\<close> and a buffer
  that is the encoding of one input tag and alone exceeds the budget with the 100
  bytes of overhead. This holds for every \<open>pdu\<close>, positive or not.
\<close>

theorem batches_within_budget:
  "\<exists>trds. buildTagReportDataStack L pdu tags = Inr trds
     \<and> (\<forall>b \<in> set (Stack trds).
           int (length (Parameter b)) + 100 \<le> pdu
           \<or> (TagCount b = 1 \<and> pdu < int (length (Parameter b)) + 100
               \<and> (\<exists>t \<in> set tags. Parameter b = buildTagReportDataParameter L t)))"
proof -
  obtain trds where 1: "buildTagReportDataStack L pdu tags = Inr trds"
    and 2: "stack_rel L pdu tags (Stack trds, length (Stack trds) - 1)"
    using buildTagReportDataStack_rel by blast
  from 2 have "\<forall>b \<in> set (Stack trds).
           int (length (Parameter b)) + 100 \<le> pdu
           \<or> (TagCount b = 1 \<and> pdu < int (length (Parameter b)) + 100
               \<and> (\<exists>t \<in> set tags. Parameter b = buildTagReportDataParameter L t))"
    unfolding stack_rel_def by (simp add: image_iff)
  with 1 show ?thesis by blast
qed

theorem batches_within_budget_witness:
  "buildTagReportDataStack sample_llrp 140
      [sample_tag (epc12 1), sample_tag epc40, sample_tag (epc12 2), sample_tag (epc12 3)]
     = Inr \<lparr>Stack =
        [\<lparr>Parameter = buildTagReportDataParameter sample_llrp (sample_tag (epc12 1)),
          TagCount = 1\<rparr>,
         \<lparr>Parameter = buildTagReportDataParameter sample_llrp (sample_tag epc40),
          TagCount = 1\<rparr>,
         \<lparr>Parameter = buildTagReportDataParameter sample_llrp (sample_tag (epc12 2))
                      @ buildTagReportDataParameter sample_llrp (sample_tag (epc12 3)),
          TagCount = 2\<rparr>]\<rparr>
   \<and> int (length (buildTagReportDataParameter sample_llrp (sample_tag (epc12 1)))) + 100
       \<le> 140
   \<and> 140 < int (length (buildTagReportDataParameter sample_llrp (sample_tag epc40))) + 100
   \<and> int (length (buildTagReportDataParameter sample_llrp (sample_tag (epc12 2))
                   @ buildTagReportDataParameter sample_llrp (sample_tag (epc12 3)))) + 100
       \<le> 140"
  using batches_within_budget [of sample_llrp 140
      "[sample_tag (epc12 1), sample_tag epc40, sample_tag (epc12 2), sample_tag (epc12 3)]"]
  by (simp add: buildTagReportDataStack_def stack_iter_def newTagReportData_def
      sample_param_length epc12_def epc40_def)


text \<open>
  Claim C3: the batcher returns a stack whose buffers, concatenated in stack order,
  are the encodings of the input tags concatenated in input order.
\<close>

theorem batches_concat:
  "\<exists>trds. buildTagReportDataStack L pdu tags = Inr trds
     \<and> concat (map Parameter (Stack trds))
         = concat (map (buildTagReportDataParameter L) tags)"
  using buildTagReportDataStack_rel [of L pdu tags] by (auto simp: stack_rel_def)

text \<open>
  Claim C4: the batcher returns a stack whose \<open>TotalTagCounts\<close> is the number of
  input tags.
\<close>

theorem batches_total:
  "\<exists>trds. buildTagReportDataStack L pdu tags = Inr trds
     \<and> TotalTagCounts trds = length tags"
  using buildTagReportDataStack_rel [of L pdu tags]
  by (auto simp: stack_rel_def TotalTagCounts_def TotalTagCounts_loop_sum)

text \<open>
  Claim C5: with \<open>pdu = 150\<close>, three tags whose encodings are 20 bytes each give two
  batches with tag counts 2 and 1, the first holding the encodings of the first two
  tags, and a total tag count of 3.
\<close>

theorem three_tags_of_20_bytes:
  assumes "length (buildTagReportDataParameter L t1) = 20"
    and "length (buildTagReportDataParameter L t2) = 20"
    and "length (buildTagReportDataParameter L t3) = 20"
  shows "buildTagReportDataStack L 150 [t1, t2, t3]
           = Inr \<lparr>Stack =
               [\<lparr>Parameter = buildTagReportDataParameter L t1
                             @ buildTagReportDataParameter L t2, TagCount = 2\<rparr>,
                \<lparr>Parameter = buildTagReportDataParameter L t3, TagCount = 1\<rparr>]\<rparr>
     \<and> (\<exists>trds. buildTagReportDataStack L 150 [t1, t2, t3] = Inr trds
          \<and> length (Stack trds) = 2
          \<and> map TagCount (Stack trds) = [2, 1]
          \<and> TotalTagCounts trds = 3)"
  using assms
  by (simp add: buildTagReportDataStack_def stack_iter_def newTagReportData_def
      TotalTagCounts_def Let_def)

theorem three_tags_of_20_bytes_witness:
  "length (buildTagReportDataParameter sample_llrp (sample_tag (epc12 1))) = 20
   \<and> length (buildTagReportDataParameter sample_llrp (sample_tag (epc12 2))) = 20
   \<and> length (buildTagReportDataParameter sample_llrp (sample_tag (epc12 3))) = 20
   \<and> buildTagReportDataStack sample_llrp 150
        [sample_tag (epc12 1), sample_tag (epc12 2), sample_tag (epc12 3)]
       = Inr \<lparr>Stack =
           [\<lparr>Parameter = buildTagReportDataParameter sample_llrp (sample_tag (epc12 1))
                         @ buildTagReportDataParameter sample_llrp (sample_tag (epc12 2)),
             TagCount = 2\<rparr>,
            \<lparr>Parameter = buildTagReportDataParameter sample_llrp (sample_tag (epc12 3)),
             TagCount = 1\<rparr>]\<rparr>"
proof -
  have l1: "length (buildTagReportDataParameter sample_llrp (sample_tag (epc12 1))) = 20"
    and l2: "length (buildTagReportDataParameter sample_llrp (sample_tag (epc12 2))) = 20"
    and l3: "length (buildTagReportDataParameter sample_llrp (sample_tag (epc12 3))) = 20"
    by (simp_all add: sample_param_length epc12_def)
  from three_tags_of_20_bytes [OF l1 l2 l3] l1 l2 l3 show ?thesis by blast
qed

text \<open>
  Claim C10: the batcher returns a stack in which every batch has a tag count of at
  least 1 and which has no more batches than the input has tags; on the empty input
  the stack is empty.
\<close>

theorem batches_nonempty:
  "(\<exists>trds. buildTagReportDataStack L pdu tags = Inr trds
      \<and> (\<forall>b \<in> set (Stack trds). 1 \<le> TagCount b)
      \<and> length (Stack trds) \<le> length tags)
   \<and> buildTagReportDataStack L pdu [] = Inr \<lparr>Stack = []\<rparr>"
proof
  show "\<exists>trds. buildTagReportDataStack L pdu tags = Inr trds
      \<and> (\<forall>b \<in> set (Stack trds). 1 \<le> TagCount b)
      \<and> length (Stack trds) \<le> length tags"
    using buildTagReportDataStack_rel [of L pdu tags] by (auto simp: stack_rel_def)
  show "buildTagReportDataStack L pdu [] = Inr \<lparr>Stack = []\<rparr>"
    by (simp add: buildTagReportDataStack_def)
qed

theorem batches_nonempty_witness:
  "buildTagReportDataStack sample_llrp 130
      [sample_tag (epc12 1), sample_tag (epc12 2)]
     = Inr \<lparr>Stack =
        [\<lparr>Parameter = buildTagReportDataParameter sample_llrp (sample_tag (epc12 1)),
          TagCount = 1\<rparr>,
         \<lparr>Parameter = buildTagReportDataParameter sample_llrp (sample_tag (epc12 2)),
          TagCount = 1\<rparr>]\<rparr>
   \<and> (1::nat) \<le> TagCount
         \<lparr>Parameter = buildTagReportDataParameter sample_llrp (sample_tag (epc12 1)),
          TagCount = 1\<rparr>
   \<and> length
        [\<lparr>Parameter = buildTagReportDataParameter sample_llrp (sample_tag (epc12 1)),
          TagCount = 1\<rparr>,
         \<lparr>Parameter = buildTagReportDataParameter sample_llrp (sample_tag (epc12 2)),
          TagCount = 1\<rparr>]
       \<le> length [sample_tag (epc12 1), sample_tag (epc12 2)]"
  using batches_nonempty [of sample_llrp 130 "[sample_tag (epc12 1), sample_tag (epc12 2)]"]
  by (simp add: buildTagReportDataStack_def stack_iter_def newTagReportData_def
      sample_param_length epc12_def)

section \<open>Theorems: record codec\<close>

text \<open>The characters \<open>ParseUint\<close> and \<open>hex.DecodeString\<close> accept as digits below 16.\<close>

lemma ParseUint_digit_table:
  "ParseUint_digit (of_char ch) = Some d \<Longrightarrow> d < 16 \<Longrightarrow> (ch, d) \<in> set digit_table"
  apply (cases ch)
  subgoal for b0 b1 b2 b3 b4 b5 b6 b7
    by (cases b0; cases b1; cases b2; cases b3; cases b4; cases b5; cases b6; cases b7;
        simp add: ParseUint_digit_def lower_def word_le_nat_alt word_less_nat_alt digit_table_def)
  done


lemma fromHexChar_table:
  "fromHexChar (of_char ch) = Some d \<Longrightarrow> (ch, d) \<in> set digit_table"
  apply (cases ch)
  subgoal for b0 b1 b2 b3 b4 b5 b6 b7
    by (cases b0; cases b1; cases b2; cases b3; cases b4; cases b5; cases b6; cases b7;
        simp add: fromHexChar_def word_le_nat_alt word_less_nat_alt digit_table_def)
  done

lemma digit_table_char:
  assumes "(ch, d) \<in> set digit_table"
  shows "unat d < 16 \<and> digits ! unat d = hexLower ch \<and> hextable ! unat d = hexLower ch
     \<and> (unat d = 0 \<longleftrightarrow> ch = CHR ''0'') \<and> (unat d < 10 \<longrightarrow> hexLower ch = ch)"
  using assms
  by (simp add: digit_table_def; elim disjE conjE;
      simp add: digits_def hextable_def hexLower_def)

lemma byte_lt16_cases:
  fixes a :: byte
  assumes "unat a < 16"
  shows "a \<in> {0, 1, 2, 3, 4, 5, 6, 7, 8, 9, 10, 11, 12, 13, 14, 15}"
proof -
  have "unat a \<in> {0, 1, 2, 3, 4, 5, 6, 7, 8, 9, 10, 11, 12, 13, 14, 15}"
    using assms by (simp, arith)
  then have "of_nat (unat a)
      \<in> ((of_nat ` {0, 1, 2, 3, 4, 5, 6, 7, 8, 9, 10, 11, 12, 13, 14, 15}) :: byte set)"
    by (rule imageI)
  then show ?thesis by simp
qed

lemma nibble_high:
  fixes a b :: byte
  assumes "unat a < 16" and "unat b < 16"
  shows "drop_bit 4 (push_bit 4 a OR b) = a"
  using byte_lt16_cases [OF assms(1)] byte_lt16_cases [OF assms(2)]
  by (elim insertE emptyE; simp)

lemma nibble_low:
  fixes a b :: byte
  assumes "unat a < 16" and "unat b < 16"
  shows "(push_bit 4 a OR b) AND 15 = b"
  using byte_lt16_cases [OF assms(1)] byte_lt16_cases [OF assms(2)]
  by (elim insertE emptyE; simp)

lemma hex_roundtrip:
  "hex_Decode (map of_char s) = Inr bs \<Longrightarrow> hex_EncodeToString bs = map hexLower s"
proof (induction s arbitrary: bs rule: induct_list012)
  case 1
  then show ?case by simp
next
  case (2 p)
  then show ?case by (simp split: option.splits)
next
  case (3 p q s)
  from "3.prems" obtain a b dst where a: "fromHexChar (of_char p) = Some a"
    and b: "fromHexChar (of_char q) = Some b"
    and dst: "hex_Decode (map of_char s) = Inr dst"
    and bs: "bs = (push_bit 4 a OR b) # dst"
    by (auto split: option.splits sum.splits)
  from a have ta: "unat a < 16 \<and> hextable ! unat a = hexLower p"
    using digit_table_char [OF fromHexChar_table] by blast
  from b have tb: "unat b < 16 \<and> hextable ! unat b = hexLower q"
    using digit_table_char [OF fromHexChar_table] by blast
  have enc: "hex_EncodeToString bs =
      hextable ! unat (drop_bit 4 (push_bit 4 a OR b))
      # hextable ! unat ((push_bit 4 a OR b) AND 15) # hex_EncodeToString dst"
    unfolding bs by (simp only: hex_EncodeToString.simps)
  from ta tb have hi: "drop_bit 4 (push_bit 4 a OR b) = a"
    by (intro nibble_high) blast+
  from ta tb have lo: "(push_bit 4 a OR b) AND 15 = b"
    by (intro nibble_low) blast+
  from ta tb "3.IH"(1) [OF dst] show ?case
    unfolding enc hi lo by simp
qed


text \<open>Formatting a number: the digits of the quotient, then the last digit.\<close>

lemma formatBits_acc: "formatBits u b a = formatBits u b [] @ a"
proof (induction u arbitrary: a rule: less_induct)
  case (less u)
  show ?case
  proof (cases "2 \<le> b \<and> b \<le> u")
    case True
    then have lt: "u div b < u" by simp
    have "formatBits u b a = formatBits (u div b) b (digits ! (u mod b) # a)"
      using True by (subst formatBits.simps) simp
    also have "\<dots> = formatBits (u div b) b [] @ digits ! (u mod b) # a"
      by (rule less.IH [OF lt])
    also have "\<dots> = (formatBits (u div b) b [] @ [digits ! (u mod b)]) @ a" by simp
    also have "formatBits (u div b) b [] @ [digits ! (u mod b)]
                 = formatBits (u div b) b [digits ! (u mod b)]"
      by (rule less.IH [OF lt, symmetric])
    also have "\<dots> = formatBits u b []"
      using True by (subst (2) formatBits.simps) simp
    finally show ?thesis .
  next
    case False
    have "formatBits u b a = digits ! u # a"
      by (subst formatBits.simps) (simp only: False if_False)
    moreover have "formatBits u b [] = [digits ! u]"
      by (subst formatBits.simps) (simp only: False if_False)
    ultimately show ?thesis by simp
  qed
qed

lemma FormatUint_digit: "d < b \<Longrightarrow> FormatUint d b = [digits ! d]"
  unfolding FormatUint_def by (subst formatBits.simps) simp

lemma FormatUint_step:
  assumes "2 \<le> b" and "d < b" and "0 < m"
  shows "FormatUint (m * b + d) b = FormatUint m b @ [digits ! d]"
proof -
  from assms have ge: "b \<le> m * b + d"
    by (metis One_nat_def Suc_leI le_add1 le_trans mult_le_mono1 nat_mult_1)
  from assms have dv: "(m * b + d) div b = m" and md: "(m * b + d) mod b = d" by simp_all
  have "formatBits (m * b + d) b [] = formatBits m b [digits ! d]"
    using assms(1) ge dv md by (subst formatBits.simps) simp
  also have "\<dots> = formatBits m b [] @ [digits ! d]" by (rule formatBits_acc)
  finally show ?thesis by (simp add: FormatUint_def)
qed

lemma ParseUint_loop_snoc:
  "ParseUint_loop b M n (s @ [c]) =
     (case ParseUint_loop b M n s of Inl e \<Rightarrow> Inl e | Inr m \<Rightarrow> ParseUint_loop b M m [c])"
  by (induction s arbitrary: n) (simp_all add: Let_def split: option.splits)

lemma ParseUint_loop_single:
  assumes "ParseUint_loop b 65535 m [c] = Inr r" and "m \<le> 65535" and "b = 10 \<or> b = 16"
  shows "\<exists>d. (c, d) \<in> set digit_table \<and> unat d < b \<and> r = m * b + unat d \<and> r \<le> 65535"
proof -
  from assms(1) obtain d where d: "ParseUint_digit (of_char c) = Some d"
    and nb: "\<not> of_nat b \<le> d"
    and r: "(let n' = (m * b) mod 2 ^ 64; n1 = (n' + unat d) mod 2 ^ 64
             in if n1 < n' \<or> n1 > 65535 then Inl ErrRange else (Inr n1 :: error + nat)) = Inr r"
    by (auto simp: Let_def split: option.splits if_splits)
  from nb assms(3) have db: "unat d < b"
    by (auto simp: word_le_nat_alt)
  with assms(3) have d16: "d < 16" by (auto simp: word_less_nat_alt)
  from assms(2,3) have mb: "m * b \<le> 65535 * 16"
    by (intro mult_le_mono) auto
  with db assms(3) have small: "m * b + unat d < 2 ^ 64" by auto
  then have "(m * b) mod 2 ^ 64 = m * b" "(m * b + unat d) mod 2 ^ 64 = m * b + unat d"
    by simp_all
  with r have "r = m * b + unat d \<and> r \<le> 65535"
    by (auto simp: Let_def split: if_splits)
  with ParseUint_digit_table [OF d d16] db show ?thesis by blast
qed

lemma trimZeros_snoc:
  "s \<noteq> [] \<Longrightarrow> trimZeros (s @ [c]) =
     (if set s \<subseteq> {CHR ''0''} then [c] else trimZeros s @ [c])"
  by (induction s rule: trimZeros.induct) auto

lemma hexLower_zero: "hexLower c = CHR ''0'' \<longleftrightarrow> c = CHR ''0''"
  by (simp add: hexLower_def)

lemma ParseUint_loop_FormatUint:
  assumes "s \<noteq> []" and "b = 10 \<or> b = 16"
  shows "ParseUint_loop b 65535 0 s = Inr m \<Longrightarrow>
     m \<le> 65535 \<and> FormatUint m b = trimZeros (map hexLower s)
     \<and> (m = 0 \<longleftrightarrow> set s \<subseteq> {CHR ''0''})
     \<and> (b = 10 \<longrightarrow> map hexLower s = s)"
  using assms(1)
proof (induction s arbitrary: m rule: rev_nonempty_induct)
  case (single c)
  from ParseUint_loop_single [OF single _ assms(2)] obtain d
    where t: "(c, d) \<in> set digit_table" and db: "unat d < b" and m: "m = unat d"
      and le: "m \<le> 65535" by auto
  from digit_table_char [OF t] db m le assms(2) show ?case
    by (auto simp: FormatUint_digit)
next
  case (snoc c s)
  from snoc.prems obtain m' where m': "ParseUint_loop b 65535 0 s = Inr m'"
    and last: "ParseUint_loop b 65535 m' [c] = Inr m"
    by (auto simp: ParseUint_loop_snoc split: sum.splits)
  from snoc.IH [OF m'] have le': "m' \<le> 65535"
    and fmt: "FormatUint m' b = trimZeros (map hexLower s)"
    and zero: "m' = 0 \<longleftrightarrow> set s \<subseteq> {CHR ''0''}"
    and dec: "b = 10 \<longrightarrow> map hexLower s = s" by blast+
  from ParseUint_loop_single [OF last le' assms(2)] obtain d
    where t: "(c, d) \<in> set digit_table" and db: "unat d < b" and m: "m = m' * b + unat d"
      and le: "m \<le> 65535" by auto
  note ch = digit_table_char [OF t]
  have b2: "2 \<le> b" using assms(2) by auto
  have zs: "set (map hexLower s) \<subseteq> {CHR ''0''} \<longleftrightarrow> set s \<subseteq> {CHR ''0''}"
    by (auto simp: hexLower_zero)
  have ne: "map hexLower s \<noteq> []" using snoc.hyps by simp
  have fm: "FormatUint m b = trimZeros (map hexLower (s @ [c]))"
  proof (cases "m' = 0")
    case True
    with m db have "FormatUint m b = [digits ! unat d]" by (simp add: FormatUint_digit)
    moreover from True zero zs ne have "trimZeros (map hexLower (s @ [c])) = [hexLower c]"
      by (simp add: trimZeros_snoc)
    ultimately show ?thesis using ch by simp
  next
    case False
    then have "FormatUint m b = FormatUint m' b @ [digits ! unat d]"
      unfolding m using b2 db by (intro FormatUint_step) auto
    moreover from False zero zs ne
    have "trimZeros (map hexLower (s @ [c])) = trimZeros (map hexLower s) @ [hexLower c]"
      by (simp add: trimZeros_snoc)
    ultimately show ?thesis using ch fmt by simp
  qed
  have mz: "m = 0 \<longleftrightarrow> set (s @ [c]) \<subseteq> {CHR ''0''}"
    using m zero ch b2 by auto
  have dc: "b = 10 \<longrightarrow> map hexLower (s @ [c]) = s @ [c]"
    using dec ch db by auto
  from le fm mz dc show ?case by blast
qed

lemma ParseUint_FormatUint:
  assumes "ParseUint s b 16 = Inr m" and "b = 10 \<or> b = 16"
  shows "m \<le> 65535 \<and> FormatUint m b = trimZeros (map hexLower s)
     \<and> (b = 10 \<longrightarrow> map hexLower s = s)"
proof -
  from assms have ne: "s \<noteq> []" and lp: "ParseUint_loop b 65535 0 s = Inr m"
    by (auto simp: ParseUint_def split: if_splits)
  from ParseUint_loop_FormatUint [OF ne assms(2) lp] show ?thesis by blast
qed


lemma trimZeros_no_leading_zero:
  "length s \<le> 1 \<or> hd s \<noteq> CHR ''0'' \<Longrightarrow> trimZeros s = s"
  by (cases s rule: trimZeros.cases) auto

text \<open>
  Claim C6 says that \<open>InString\<close> gives back the four field strings of every record
  \<open>buildTag\<close> accepts, up to the case of the hexadecimal fields. \<open>ParseUint\<close>
  accepts zeros in front of a numeral and \<open>FormatUint\<close> writes none, so the claim
  fails on the record below: its control bits \<open>0C00\<close> come back as \<open>c00\<close> and its
  length \<open>016\<close> as \<open>16\<close>.
\<close>

theorem buildTag_InString_leading_zeros:
  "buildTag [''0C00'', ''016'', ''96'', ''E20012ab'']
     = Inr \<lparr>PCBits = 3072, Length = 16, EPCLengthBits = 96, EPC = [226, 0, 18, 171]\<rparr>
   \<and> map hexLower (PCBits_str (InString \<lparr>PCBits = 3072, Length = 16, EPCLengthBits = 96,
         EPC = [226, 0, 18, 171]\<rparr>)) \<noteq> map hexLower ''0C00''
   \<and> Length_str (InString \<lparr>PCBits = 3072, Length = 16, EPCLengthBits = 96,
         EPC = [226, 0, 18, 171]\<rparr>) \<noteq> ''016''"
  by (simp add: buildTag_def ParseUint_def ParseUint_digit_def lower_def maxUint64_def
      word_le_nat_alt hex_DecodeString_def fromHexChar_def InString_def FormatUint_def formatBits.simps
      digits_def hexLower_def)


text \<open>
  Claim C6 as amended: for every record \<open>buildTag\<close> accepts, \<open>InString\<close> of the tag
  gives the control bits in lower case without the zeros in front, the length and
  the EPC length without the zeros in front, and the EPC in lower case. A numeric
  field written without zeros in front comes back as it was, up to case.
\<close>

theorem buildTag_InString:
  assumes "buildTag record = Inr t"
  shows "length record = 4
     \<and> PCBits_str (InString t) = trimZeros (map hexLower (record ! 0))
     \<and> Length_str (InString t) = trimZeros (record ! 1)
     \<and> EPCLengthBits_str (InString t) = trimZeros (record ! 2)
     \<and> EPC_str (InString t) = map hexLower (record ! 3)"
proof -
  from assms obtain pc64 len64 epclen64 epc where len: "length record = 4"
    and pc: "ParseUint (record ! 0) 16 16 = Inr pc64"
    and ln: "ParseUint (record ! 1) 10 16 = Inr len64"
    and el: "ParseUint (record ! 2) 10 16 = Inr epclen64"
    and ep: "hex_DecodeString (record ! 3) = Inr epc"
    and t: "t = \<lparr>PCBits = of_nat pc64, Length = of_nat len64,
                  EPCLengthBits = of_nat epclen64, EPC = epc\<rparr>"
    by (auto simp: buildTag_def split: if_splits sum.splits)
  have u: "unat (of_nat n :: 16 word) = n" if "n \<le> 65535" for n
    using that by (simp add: unat_of_nat)
  from ParseUint_FormatUint [OF pc] have 1: "pc64 \<le> 65535"
    "FormatUint pc64 16 = trimZeros (map hexLower (record ! 0))" by simp_all
  from ParseUint_FormatUint [OF ln] have 2: "len64 \<le> 65535"
    "FormatUint len64 10 = trimZeros (record ! 1)" by simp_all
  from ParseUint_FormatUint [OF el] have 3: "epclen64 \<le> 65535"
    "FormatUint epclen64 10 = trimZeros (record ! 2)" by simp_all
  from ep have 4: "hex_EncodeToString epc = map hexLower (record ! 3)"
    by (simp add: hex_DecodeString_def hex_roundtrip)
  from len 1 2 3 4 show ?thesis
    by (simp add: t InString_def u)
qed

theorem buildTag_InString_witness:
  "buildTag [''0C00'', ''016'', ''96'', ''E20012ab'']
     = Inr \<lparr>PCBits = 3072, Length = 16, EPCLengthBits = 96, EPC = [226, 0, 18, 171]\<rparr>
   \<and> PCBits_str (InString \<lparr>PCBits = 3072, Length = 16, EPCLengthBits = 96,
         EPC = [226, 0, 18, 171]\<rparr>) = ''c00''
   \<and> Length_str (InString \<lparr>PCBits = 3072, Length = 16, EPCLengthBits = 96,
         EPC = [226, 0, 18, 171]\<rparr>) = ''16''
   \<and> EPCLengthBits_str (InString \<lparr>PCBits = 3072, Length = 16, EPCLengthBits = 96,
         EPC = [226, 0, 18, 171]\<rparr>) = ''96''
   \<and> EPC_str (InString \<lparr>PCBits = 3072, Length = 16, EPCLengthBits = 96,
         EPC = [226, 0, 18, 171]\<rparr>) = ''e20012ab''"
proof -
  have b: "buildTag [''0C00'', ''016'', ''96'', ''E20012ab'']
     = Inr \<lparr>PCBits = 3072, Length = 16, EPCLengthBits = 96, EPC = [226, 0, 18, 171]\<rparr>"
    by (simp add: buildTag_def ParseUint_def ParseUint_digit_def lower_def maxUint64_def
        hex_DecodeString_def fromHexChar_def word_le_nat_alt)
  from buildTag_InString [OF b] b show ?thesis
    by (simp add: hexLower_def)
qed


section \<open>Theorems: reading tags from CSV\<close>

lemma parse_evals:
  "buildTag [''3000'', ''16'', ''96'', ''e2001234'']
     = Inr \<lparr>PCBits = 12288, Length = 16, EPCLengthBits = 96, EPC = [226, 0, 18, 52]\<rparr>"
  "buildTag [''3000'', ''16'', ''96'', ''e2005678'']
     = Inr \<lparr>PCBits = 12288, Length = 16, EPCLengthBits = 96, EPC = [226, 0, 86, 120]\<rparr>"
  "buildTag [''1A'', ''10'', ''96'', ''xyz''] = Inl (InvalidByteError 120)"
  "buildTag [''1A'', ''10''] = Inl EOF"
  by (simp_all add: buildTag_def ParseUint_def ParseUint_digit_def lower_def maxUint64_def
        hex_DecodeString_def fromHexChar_def word_le_nat_alt)

lemma reads_short:
  "csv_Read_all 0 (csv_lines_from [] three_rows_short)
     = [([''3000'', ''16'', ''96'', ''e2001234''], None),
        ([''1A'', ''10''], Some ErrFieldCount),
        ([''3000'', ''16'', ''96'', ''e2005678''], None)]"
  by (simp add: three_rows_short_def)

text \<open>
  What the loop does by itself: when \<open>check\<close> returns on \<open>nil\<close> and the reader
  reports no error, the result holds the tags of exactly the records \<open>buildTag\<close>
  accepts, in their order, and every other record is skipped.
\<close>

lemma loadTags_loop_no_reader_error:
  assumes "check None" and "\<forall>r \<in> set reads. snd r = None"
  shows "loadTags_loop check reads tags =
     Inr (tags @ List.map_filter
            (\<lambda>r. case buildTag (fst r) of Inl e \<Rightarrow> None | Inr tag \<Rightarrow> Some tag) reads)"
  using assms(2)
proof (induction reads arbitrary: tags)
  case Nil
  then show ?case by (simp add: List.map_filter_simps)
next
  case (Cons r reads)
  obtain fields err where r: "r = (fields, err)" by (cases r)
  with Cons.prems have err: "err = None" by simp
  from Cons.prems have rest: "\<forall>r \<in> set reads. snd r = None" by simp
  show ?case
    using assms(1) Cons.IH [OF rest]
    by (simp add: r err List.map_filter_simps split: sum.splits)
qed

text \<open>
  Claim C7 says that a record with a wrong number of fields is skipped and that the
  reading goes on. On \<open>three_rows_short\<close> the reader returns the two-field record
  together with \<open>ErrFieldCount\<close>, since the first record has set the field count to
  four, and the loop hands the error to \<open>check\<close> before \<open>buildTag\<close> sees the
  record. Whatever \<open>check\<close> is, the record is skipped only if \<open>check\<close> returns on
  that error; if it does not, the program ends there and no tag is returned.
\<close>

theorem loadTagsFromCSV_short_row:
  "loadTagsFromCSV check three_rows_short =
     (if \<not> check None then Inl (CheckAborted None)
      else if \<not> check (Some ErrFieldCount) then Inl (CheckAborted (Some ErrFieldCount))
      else Inr [\<lparr>PCBits = 12288, Length = 16, EPCLengthBits = 96, EPC = [226, 0, 18, 52]\<rparr>,
                \<lparr>PCBits = 12288, Length = 16, EPCLengthBits = 96,
                 EPC = [226, 0, 86, 120]\<rparr>])"
  by (simp add: loadTagsFromCSV_def reads_short parse_evals)
    (simp add: csv_plain_def three_rows_short_def)

text \<open>
  With the customary \<open>check\<close>, which panics on every error, the input with the short
  row ends the program. A record with four fields of which one does not parse is
  skipped, as the claim says.
\<close>

lemma loadTagsFromCSV_short_row_panics:
  "loadTagsFromCSV check_panics three_rows_short = Inl (CheckAborted (Some ErrFieldCount))"
  by (simp add: loadTagsFromCSV_def reads_short parse_evals check_panics_def)
    (simp add: csv_plain_def three_rows_short_def)

lemma reads_unparseable:
  "csv_Read_all 0 (csv_lines_from [] three_rows_unparseable)
     = [([''3000'', ''16'', ''96'', ''e2001234''], None),
        ([''1A'', ''10'', ''96'', ''xyz''], None),
        ([''3000'', ''16'', ''96'', ''e2005678''], None)]"
  by (simp add: three_rows_unparseable_def)

lemma loadTagsFromCSV_unparseable_row:
  "loadTagsFromCSV check_panics three_rows_unparseable
     = Inr [\<lparr>PCBits = 12288, Length = 16, EPCLengthBits = 96, EPC = [226, 0, 18, 52]\<rparr>,
            \<lparr>PCBits = 12288, Length = 16, EPCLengthBits = 96, EPC = [226, 0, 86, 120]\<rparr>]"
  by (simp add: loadTagsFromCSV_def reads_unparseable parse_evals check_panics_def)
    (simp add: csv_plain_def three_rows_unparseable_def)

end
